theory Spec2Isabelle
  imports Complex_Main "HOL-Library.Monad_Syntax"
begin

section \<open>Configuration constants of \<^verbatim>\<open>matrix_rain.py\<close>\<close>

definition MIN_STREAM_LENGTH :: int where
  "MIN_STREAM_LENGTH = 7"

definition MAX_STREAM_LENGTH :: int where
  "MAX_STREAM_LENGTH = 38"

definition STREAM_SPEED_MIN :: int where
  "STREAM_SPEED_MIN = 1"

definition STREAM_SPEED_MAX :: int where
  "STREAM_SPEED_MAX = 15"

text \<open>
  \<^verbatim>\<open>STREAM_DENSITY = 0.6\<close> and the literal \<^verbatim>\<open>0.05\<close> of the glitch test are binary
  doubles. A double is a rational number, and comparing two doubles compares these
  rationals, so both constants are written as the exact value of the double.
\<close>

definition STREAM_DENSITY :: rat where
  "STREAM_DENSITY = 5404319552844595 / 9007199254740992"

definition GLITCH_CHANCE :: rat where
  "GLITCH_CHANCE = 3602879701896397 / 72057594037927936"

definition FADE_LENGTH :: int where
  "FADE_LENGTH = 5"

text \<open>
  A glyph is a one-character Python string, modelled by its code point.
  \<^verbatim>\<open>CHAR_SET = [chr(i) for i in range(0xFF61, 0xFF9F)]\<close>: the half-width Katakana block.
\<close>

type_synonym glyph = nat

definition CHAR_SET :: "glyph list" where
  "CHAR_SET = [65377..<65439]"

definition blank :: glyph where
  "blank = 32"

section \<open>Curses attributes\<close>

text \<open>
  A curses attribute word has a colour-pair field and independent flag bits. Only the
  bold and dim flags occur in the program. \<^verbatim>\<open>a | b\<close> on attribute words is the
  field-wise disjunction.
\<close>

record attributes =
  pair_number :: nat
  bold :: bool
  dim :: bool

definition color_pair :: "nat \<Rightarrow> attributes" where
  "color_pair n = \<lparr>pair_number = n, bold = False, dim = False\<rparr>"

definition A_BOLD :: attributes where
  "A_BOLD = \<lparr>pair_number = 0, bold = True, dim = False\<rparr>"

definition A_DIM :: attributes where
  "A_DIM = \<lparr>pair_number = 0, bold = False, dim = True\<rparr>"

definition attr_or :: "attributes \<Rightarrow> attributes \<Rightarrow> attributes" where
  "attr_or a b =
     \<lparr>pair_number = or (pair_number a) (pair_number b),
      bold = (bold a \<or> bold b), dim = (dim a \<or> dim b)\<rparr>"

definition HEAD_CHAR_BRIGHTNESS :: attributes where
  "HEAD_CHAR_BRIGHTNESS = A_BOLD"

definition SECOND_CHAR_BRIGHTNESS :: attributes where
  "SECOND_CHAR_BRIGHTNESS = A_BOLD"

section \<open>The random source\<close>

text \<open>
  The state of the module \<^verbatim>\<open>random\<close> is modelled by what it will return: an infinite
  sequence of raw draws, of which every library call consumes the first. Each call maps
  its raw draw onto its result range, and every value of the range is the image of some
  raw draw, so every sequence of results the library can return is the behaviour of some
  such sequence. A property proved for every sequence holds for every run.
\<close>

type_synonym rng = "nat \<Rightarrow> nat"

definition next_raw :: "rng \<Rightarrow> nat \<times> rng" where
  "next_raw g = (g 0, \<lambda>n. g (Suc n))"

text \<open>
  \<^verbatim>\<open>random.randint(a, b)\<close>: an integer of \<open>[a, b]\<close>; raises \<^verbatim>\<open>ValueError\<close> on an empty
  range, which is the result \<open>None\<close>.
\<close>

definition randint :: "int \<Rightarrow> int \<Rightarrow> rng \<Rightarrow> (int \<times> rng) option" where
  "randint a b g =
     (if b < a then None
      else (let (r, g') = next_raw g in Some (a + int r mod (b - a + 1), g')))"

text \<open>\<^verbatim>\<open>random.random()\<close>: a double \<open>k / 2^53\<close> with \<open>0 \<le> k < 2^53\<close>.\<close>

definition random_random :: "rng \<Rightarrow> rat \<times> rng" where
  "random_random g =
     (let (r, g') = next_raw g in (of_nat (r mod 2 ^ 53) / 2 ^ 53, g'))"

section \<open>The class \<^verbatim>\<open>RainStream\<close>\<close>

text \<open>
  The field \<^verbatim>\<open>length\<close> is \<open>length_s\<close> here, since \<open>length\<close> is the length of a list.
\<close>

record RainStream =
  col :: int
  height :: int
  width :: int
  max_len :: int
  min_len :: int
  length_s :: int
  y :: int
  speed :: int
  chars :: "glyph list"
  update_counter :: int

text \<open>
  \<^verbatim>\<open>_get_random_char\<close> is \<^verbatim>\<open>random.choice(CHAR_SET)\<close>, which indexes the sequence at a
  random position below its length. \<open>CHAR_SET\<close> is a constant with 62 elements, so the
  call cannot raise.
\<close>

definition get_random_char :: "rng \<Rightarrow> glyph \<times> rng" where
  "get_random_char g =
     (let (r, g') = next_raw g in (CHAR_SET ! (r mod length CHAR_SET), g'))"

text \<open>The list comprehension \<^verbatim>\<open>[self._get_random_char() for _ in range(n)]\<close>.\<close>

fun random_chars :: "nat \<Rightarrow> rng \<Rightarrow> glyph list \<times> rng" where
  "random_chars 0 g = ([], g)"
| "random_chars (Suc n) g =
     (let (c, g1) = get_random_char g;
          (cs, g2) = random_chars n g1
      in (c # cs, g2))"

text \<open>
  \<^verbatim>\<open>_reset\<close>. The calls of \<open>randint\<close> are made in the order of the source; one that
  raises ends the method (and the program), so no state is returned.
\<close>

definition reset :: "RainStream \<Rightarrow> rng \<Rightarrow> (RainStream \<times> rng) option" where
  "reset s g = do {
     (len, g1) \<leftarrow> (if min_len s \<ge> max_len s then Some (min_len s, g)
                   else randint (min_len s) (max_len s) g);
     (y', g2) \<leftarrow> randint (- len) (- 1) g1;
     (sp, g3) \<leftarrow> randint STREAM_SPEED_MIN STREAM_SPEED_MAX g2;
     (n, g4) \<leftarrow> randint 1 len g3;
     let (cs, g5) = random_chars (nat n) g4;
     Some (s\<lparr>length_s := len, y := y', speed := sp, chars := cs, update_counter := 0\<rparr>, g5)
   }"

text \<open>
  \<^verbatim>\<open>__init__\<close>. The fields that \<^verbatim>\<open>_reset\<close> assigns do not exist before it runs; the
  record needs a value for them, which \<open>reset\<close> overwrites without reading it.
\<close>

definition RainStream_init :: "int \<Rightarrow> int \<Rightarrow> int \<Rightarrow> rng \<Rightarrow> (RainStream \<times> rng) option" where
  "RainStream_init c h w g =
     (let max_len0 = min MAX_STREAM_LENGTH (h - 1);
          min_len0 = min MIN_STREAM_LENGTH max_len0;
          min_len1 = (if min_len0 \<le> 2 then 3 else min_len0);
          max_len1 = (if max_len0 < min_len1 then min_len1 else max_len0)
      in reset \<lparr>col = c, height = h, width = w, max_len = max_len1, min_len = min_len1,
                length_s = 0, y = 0, speed = 0, chars = [], update_counter = 0\<rparr> g)"

text \<open>
  The glitch loop of \<^verbatim>\<open>update\<close>: \<^verbatim>\<open>for i in range(change_start_index, len(self.chars))\<close>,
  over the list of indices.
\<close>

fun glitch_loop :: "nat list \<Rightarrow> glyph list \<Rightarrow> rng \<Rightarrow> glyph list \<times> rng" where
  "glitch_loop [] cs g = (cs, g)"
| "glitch_loop (i # is) cs g =
     (let (u, g1) = random_random g in
      if u < GLITCH_CHANCE
      then (let (c, g2) = get_random_char g1 in glitch_loop is (cs[i := c]) g2)
      else glitch_loop is cs g1)"

definition glitch :: "RainStream \<Rightarrow> rng \<Rightarrow> RainStream \<times> rng" where
  "glitch s g =
     (let change_start_index = 2 in
      if length (chars s) > change_start_index
      then (let (cs, g') = glitch_loop [change_start_index..<length (chars s)] (chars s) g
            in (s\<lparr>chars := cs\<rparr>, g'))
      else (s, g))"

text \<open>\<^verbatim>\<open>update\<close>, one assignment of the source per binding.\<close>

definition update :: "RainStream \<Rightarrow> int \<Rightarrow> rng \<Rightarrow> (RainStream \<times> rng) option" where
  "update s current_height g =
     (let s1 = s\<lparr>height := current_height\<rparr>;
          s2 = s1\<lparr>max_len := min MAX_STREAM_LENGTH (height s1 - 1)\<rparr>;
          s3 = s2\<lparr>update_counter := update_counter s2 + 1\<rparr>
      in if update_counter s3 \<ge> speed s3
         then (let s4 = s3\<lparr>y := y s3 + 1\<rparr>;
                   s5 = s4\<lparr>update_counter := 0\<rparr>
               in if y s5 \<ge> height s5 + length_s s5 then reset s5 g
                  else (let (new_char, g1) = get_random_char g;
                            s6 = s5\<lparr>chars := new_char # chars s5\<rparr>;
                            s7 = (if int (length (chars s6)) > length_s s6
                                  then s6\<lparr>chars := butlast (chars s6)\<rparr> else s6)
                        in Some (glitch s7 g1)))
         else Some (glitch s3 g))"

section \<open>Drawing\<close>

text \<open>
  The screen is the external curses window, a write-only surface: it is modelled by the
  calls of \<^verbatim>\<open>addstr\<close> it has received, oldest first. The erase call passes no
  attribute. Every call of \<^verbatim>\<open>addstr\<close> in \<^verbatim>\<open>draw\<close> is inside
  \<^verbatim>\<open>try: ... except curses.error: pass\<close>, so whether curses accepts a call has no
  effect on the calls that follow; all that a raise skips is the assignment of the local
  \<^verbatim>\<open>last_drawn_y\<close>, which is never read. \<^verbatim>\<open>main\<close> draws only after
  \<^verbatim>\<open>curses.start_color()\<close>, so \<^verbatim>\<open>curses.color_pair\<close> returns.
\<close>

datatype addstr_call = Addstr int int glyph "attributes option"

type_synonym screen = "addstr_call list"

text \<open>
  The attribute of the character at index \<open>i\<close>: the \<^verbatim>\<open>if/elif/else\<close> of the loop body.
  Every branch assigns \<^verbatim>\<open>attributes\<close>, so its initial value 0 is never written.
\<close>

definition char_attributes :: "nat \<Rightarrow> nat \<Rightarrow> attributes" where
  "char_attributes i stream_len =
     (if i = 0 then attr_or (color_pair 2) HEAD_CHAR_BRIGHTNESS
      else if i = 1 \<and> stream_len > 1 then attr_or (color_pair 1) SECOND_CHAR_BRIGHTNESS
      else (let effective_fade_len = min FADE_LENGTH (max 1 (int stream_len - 2));
                index_from_end = int stream_len - 1 - int i
            in if index_from_end < effective_fade_len
               then (if of_int index_from_end < (of_int effective_fade_len :: rat) / 2
                     then attr_or (color_pair 1) A_DIM
                     else color_pair 1)
               else color_pair 1))"

text \<open>The loop \<^verbatim>\<open>for i, char in enumerate(self.chars)\<close>.\<close>

fun draw_chars :: "RainStream \<Rightarrow> nat \<Rightarrow> (nat \<times> glyph) list \<Rightarrow> screen \<Rightarrow> screen" where
  "draw_chars s stream_len [] scr = scr"
| "draw_chars s stream_len ((i, char) # rest) scr =
     (let current_y = y s - int i in
      if 0 \<le> current_y \<and> current_y < height s
      then draw_chars s stream_len rest
             (scr @ [Addstr current_y (col s) char (Some (char_attributes i stream_len))])
      else draw_chars s stream_len rest scr)"

text \<open>
  \<^verbatim>\<open>draw\<close> returns the stream beside the screen, as the method could assign to
  \<^verbatim>\<open>self\<close>; the body of the source has no such assignment.
\<close>

definition draw :: "RainStream \<Rightarrow> screen \<Rightarrow> RainStream \<times> screen" where
  "draw s scr =
     (let stream_len = length (chars s);
          scr1 = draw_chars s stream_len (enumerate 0 (chars s)) scr
      in if int (length (chars s)) \<ge> length_s s
         then (let tail_erase_y = y s - length_s s in
               if 0 \<le> tail_erase_y \<and> tail_erase_y < height s \<and> tail_erase_y < y s
               then (s, scr1 @ [Addstr tail_erase_y (col s) blank None])
               else (s, scr1))
         else (s, scr1))"

section \<open>Building the streams\<close>

text \<open>
  \<^verbatim>\<open>create_streams\<close> of \<^verbatim>\<open>main\<close>. The source compares each draw with the global
  \<^verbatim>\<open>STREAM_DENSITY\<close>; \<open>create_streams_with\<close> is the same body with that
  constant as its first argument.
\<close>

fun create_streams_loop ::
  "rat \<Rightarrow> int list \<Rightarrow> int \<Rightarrow> int \<Rightarrow> RainStream list \<Rightarrow> rng \<Rightarrow> (RainStream list \<times> rng) option" where
  "create_streams_loop density [] h w new_streams g = Some (new_streams, g)"
| "create_streams_loop density (c # cols) h w new_streams g =
     (let (u, g1) = random_random g in
      if u < density
      then do {
        (s, g2) \<leftarrow> RainStream_init c h w g1;
        create_streams_loop density cols h w (new_streams @ [s]) g2
      }
      else create_streams_loop density cols h w new_streams g1)"

definition create_streams_with ::
  "rat \<Rightarrow> int \<Rightarrow> int \<Rightarrow> rng \<Rightarrow> (RainStream list \<times> rng) option" where
  "create_streams_with density w h g =
     (if h \<le> 2 then Some ([], g)
      else create_streams_loop density [0..w - 1] h w [] g)"

definition create_streams :: "int \<Rightarrow> int \<Rightarrow> rng \<Rightarrow> (RainStream list \<times> rng) option" where
  "create_streams w h g = create_streams_with STREAM_DENSITY w h g"

text \<open>
  The main loop calls \<^verbatim>\<open>stream.update(height)\<close> once per frame; \<open>run_updates n\<close> is
  \<open>n\<close> such calls on one stream.
\<close>

fun run_updates :: "nat \<Rightarrow> int \<Rightarrow> RainStream \<Rightarrow> rng \<Rightarrow> (RainStream \<times> rng) option" where
  "run_updates 0 h s g = Some (s, g)"
| "run_updates (Suc n) h s g = do { (s', g') \<leftarrow> update s h g; run_updates n h s' g' }"

section \<open>The style rule of the specification\<close>

text \<open>
  The specification of \<^verbatim>\<open>render\<close> names five styles and gives the rule that selects one
  from the buffer index, the buffer length and the fade length. \<open>spec_style\<close> is that
  rule in the words of the specification, not a translation of the source; it is compared
  with \<open>char_attributes\<close> below. \<open>style_attributes\<close> is the attribute the source
  writes for each style (its comments name them: white and bold, green and bold, dim green,
  normal green at the start of the fade, normal green). The quotient
  \<open>effective_fade / 2\<close> is the exact one, 2.5 for a fade of 5: the specification does not
  round it, and the source divides by \<^verbatim>\<open>2.0\<close>.
\<close>

datatype style = Head_style | Second_style | Dim_style | Normal_fade_style | Body_style

definition spec_style :: "int \<Rightarrow> nat \<Rightarrow> nat \<Rightarrow> style" where
  "spec_style fade_length buffer_length i =
     (if i = 0 then Head_style
      else if i = 1 then Second_style
      else (let effective_fade = min fade_length (max 1 (int buffer_length - 2));
                distance_from_tail = int buffer_length - 1 - int i
            in if of_int distance_from_tail < (of_int effective_fade :: rat) / 2 then Dim_style
               else if distance_from_tail < effective_fade then Normal_fade_style
               else Body_style))"

definition style_attributes :: "style \<Rightarrow> attributes" where
  "style_attributes st =
     (case st of
        Head_style \<Rightarrow> attr_or (color_pair 2) HEAD_CHAR_BRIGHTNESS
      | Second_style \<Rightarrow> attr_or (color_pair 1) SECOND_CHAR_BRIGHTNESS
      | Dim_style \<Rightarrow> attr_or (color_pair 1) A_DIM
      | Normal_fade_style \<Rightarrow> color_pair 1
      | Body_style \<Rightarrow> color_pair 1)"

section \<open>Concrete inputs\<close>

text \<open>Two random sources: every raw draw is 0, every raw draw is 1.\<close>

definition zero_rng :: rng where
  "zero_rng = (\<lambda>_. 0)"

definition one_rng :: rng where
  "one_rng = (\<lambda>_. 1)"

text \<open>
  Streams of a terminal of 24 rows: one that is still growing, and one at its full
  length of 8 glyphs.
\<close>

definition falling_stream :: RainStream where
  "falling_stream = \<lparr>col = 0, height = 24, width = 80, max_len = 23, min_len = 7,
     length_s = 7, y = 3, speed = 1, chars = [65377, 65378, 65379, 65380, 65381],
     update_counter = 0\<rparr>"

definition full_stream :: RainStream where
  "full_stream = \<lparr>col = 4, height = 24, width = 80, max_len = 23, min_len = 7,
     length_s = 8, y = 9, speed = 1,
     chars = [65377, 65378, 65379, 65380, 65381, 65382, 65383, 65384],
     update_counter = 0\<rparr>"

text \<open>
  Streams of a terminal of 3 rows: the one the constructor builds from the source of
  zeros, and the one built from the source of ones after its first \<open>update\<close>.
\<close>

definition three_row_stream :: RainStream where
  "three_row_stream = \<lparr>col = 0, height = 3, width = 1, max_len = 3, min_len = 3,
     length_s = 3, y = - 3, speed = 1, chars = [65377], update_counter = 0\<rparr>"

definition short_stream :: RainStream where
  "short_stream = \<lparr>col = 0, height = 3, width = 1, max_len = 2, min_len = 3,
     length_s = 3, y = - 2, speed = 2, chars = [65378, 65378], update_counter = 1\<rparr>"

text \<open>
  A stream of a terminal of 4 rows, built from the source of ones, after 16 frames: its
  head is at row 6, one row short of recycling. \<open>waiting_stream\<close> is that stream before,
  and \<open>leaving_stream\<close> after, a call of \<open>update\<close> with a height of 3 rows, on which its
  counter does not fire.
\<close>

definition waiting_stream :: RainStream where
  "waiting_stream = \<lparr>col = 0, height = 4, width = 1, max_len = 3, min_len = 3,
     length_s = 3, y = 6, speed = 2, chars = [65378, 65378, 65378], update_counter = 0\<rparr>"

definition leaving_stream :: RainStream where
  "leaving_stream = \<lparr>col = 0, height = 3, width = 1, max_len = 2, min_len = 3,
     length_s = 3, y = 6, speed = 2, chars = [65378, 65378, 65378], update_counter = 1\<rparr>"

section \<open>The random source: ranges of the draws\<close>

lemmas config_defs =
  MIN_STREAM_LENGTH_def MAX_STREAM_LENGTH_def STREAM_SPEED_MIN_def STREAM_SPEED_MAX_def
  FADE_LENGTH_def

lemmas attr_defs =
  color_pair_def A_BOLD_def A_DIM_def attr_or_def
  HEAD_CHAR_BRIGHTNESS_def SECOND_CHAR_BRIGHTNESS_def

lemma length_CHAR_SET: "length CHAR_SET = 62"
  by (simp add: CHAR_SET_def)

lemma randint_Some:
  assumes "randint a b g = Some (r, g')"
  shows "a \<le> r \<and> r \<le> b \<and> g' = snd (next_raw g)"
proof -
  from assms have ab: "a \<le> b" and r: "r = a + int (fst (next_raw g)) mod (b - a + 1)"
    and g: "g' = snd (next_raw g)"
    by (auto simp: randint_def split: if_splits prod.splits)
  have "0 \<le> int (fst (next_raw g)) mod (b - a + 1)"
    using ab by (intro pos_mod_sign) simp
  moreover have "int (fst (next_raw g)) mod (b - a + 1) < b - a + 1"
    using ab by (intro pos_mod_bound) simp
  ultimately show ?thesis using r g by simp
qed

lemma randint_succeeds:
  "a \<le> b \<Longrightarrow> \<exists>r g'. randint a b g = Some (r, g')"
  by (simp add: randint_def split: prod.splits)

lemma get_random_char_palette: "fst (get_random_char g) \<in> set CHAR_SET"
  by (simp add: get_random_char_def length_CHAR_SET split: prod.splits)

lemma random_chars_length: "length (fst (random_chars n g)) = n"
proof (induction n arbitrary: g)
  case 0
  show ?case by simp
next
  case (Suc n)
  obtain c g1 where c: "get_random_char g = (c, g1)" by (cases "get_random_char g")
  obtain cs g2 where cs: "random_chars n g1 = (cs, g2)" by (cases "random_chars n g1")
  show ?case using Suc [of g1] c cs by simp
qed

lemma random_chars_palette: "set (fst (random_chars n g)) \<subseteq> set CHAR_SET"
proof (induction n arbitrary: g)
  case 0
  show ?case by simp
next
  case (Suc n)
  obtain c g1 where c: "get_random_char g = (c, g1)" by (cases "get_random_char g")
  obtain cs g2 where cs: "random_chars n g1 = (cs, g2)" by (cases "random_chars n g1")
  have "c \<in> set CHAR_SET" using get_random_char_palette [of g] c by simp
  moreover have "set cs \<subseteq> set CHAR_SET" using Suc [of g1] cs by simp
  ultimately show ?case using c cs by simp
qed

text \<open>What a reset that returns has done.\<close>

lemma reset_Some:
  assumes "reset s g = Some (s', g')"
  shows "(if max_len s \<le> min_len s then length_s s' = min_len s
          else min_len s \<le> length_s s' \<and> length_s s' \<le> max_len s)"
    and "- length_s s' \<le> y s'" and "y s' \<le> - 1"
    and "STREAM_SPEED_MIN \<le> speed s'" and "speed s' \<le> STREAM_SPEED_MAX"
    and "update_counter s' = 0"
    and "1 \<le> length (chars s')" and "int (length (chars s')) \<le> length_s s'"
    and "set (chars s') \<subseteq> set CHAR_SET"
    and "col s' = col s" and "height s' = height s" and "width s' = width s"
    and "max_len s' = max_len s" and "min_len s' = min_len s"
proof -
  from assms obtain len g1 y' g2 sp g3 n g4 where
    len: "(if max_len s \<le> min_len s then Some (min_len s, g)
           else randint (min_len s) (max_len s) g) = Some (len, g1)"
    and y': "randint (- len) (- 1) g1 = Some (y', g2)"
    and sp: "randint STREAM_SPEED_MIN STREAM_SPEED_MAX g2 = Some (sp, g3)"
    and n: "randint 1 len g3 = Some (n, g4)"
    and s': "s' = s\<lparr>length_s := len, y := y', speed := sp,
                    chars := fst (random_chars (nat n) g4), update_counter := 0\<rparr>"
    by (auto simp: reset_def bind_eq_Some_conv case_prod_beta Let_def)
  show "(if max_len s \<le> min_len s then length_s s' = min_len s
          else min_len s \<le> length_s s' \<and> length_s s' \<le> max_len s)"
    using len s' by (auto split: if_splits dest: randint_Some)
  show "- length_s s' \<le> y s'" "y s' \<le> - 1"
    using randint_Some [OF y'] s' by simp_all
  show "STREAM_SPEED_MIN \<le> speed s'" "speed s' \<le> STREAM_SPEED_MAX"
    using randint_Some [OF sp] s' by simp_all
  show "update_counter s' = 0" using s' by simp
  show "1 \<le> length (chars s')" "int (length (chars s')) \<le> length_s s'"
    using randint_Some [OF n] s' by (auto simp: random_chars_length)
  show "set (chars s') \<subseteq> set CHAR_SET"
    using s' by (simp add: random_chars_palette)
  show "col s' = col s" "height s' = height s" "width s' = width s"
    "max_len s' = max_len s" "min_len s' = min_len s"
    using s' by simp_all
qed

lemma reset_succeeds:
  assumes "1 \<le> min_len s"
  shows "\<exists>s' g'. reset s g = Some (s', g')"
proof -
  obtain len g1 where len: "(if max_len s \<le> min_len s then Some (min_len s, g)
           else randint (min_len s) (max_len s) g) = Some (len, g1)"
    using randint_succeeds [of "min_len s" "max_len s" g] by (cases "max_len s \<le> min_len s") auto
  have "min_len s \<le> len"
    using len by (auto split: if_splits dest: randint_Some)
  with assms have l1: "1 \<le> len" by simp
  obtain y' g2 where y': "randint (- len) (- 1) g1 = Some (y', g2)"
    using randint_succeeds [of "- len" "- 1" g1] l1 by auto
  obtain sp g3 where sp: "randint STREAM_SPEED_MIN STREAM_SPEED_MAX g2 = Some (sp, g3)"
    using randint_succeeds [of STREAM_SPEED_MIN STREAM_SPEED_MAX g2] by (auto simp: config_defs)
  obtain n g4 where n: "randint 1 len g3 = Some (n, g4)"
    using randint_succeeds [of 1 len g3] l1 by auto
  show ?thesis
    using len y' sp n by (simp add: reset_def split: prod.splits)
qed

section \<open>The random source: the two concrete sources\<close>

lemma next_raw_zero: "next_raw zero_rng = (0, zero_rng)"
  by (simp add: next_raw_def zero_rng_def)

lemma next_raw_one: "next_raw one_rng = (1, one_rng)"
  by (simp add: next_raw_def one_rng_def)

lemma CHAR_SET_nth: "i < 62 \<Longrightarrow> CHAR_SET ! i = 65377 + i"
  unfolding CHAR_SET_def by (subst nth_upt) simp_all

lemma get_random_char_zero: "get_random_char zero_rng = (65377, zero_rng)"
  by (simp add: get_random_char_def next_raw_zero length_CHAR_SET CHAR_SET_nth)

lemma get_random_char_one: "get_random_char one_rng = (65378, one_rng)"
  by (simp add: get_random_char_def next_raw_one length_CHAR_SET CHAR_SET_nth)

lemma random_random_zero: "random_random zero_rng = (0, zero_rng)"
  by (simp add: random_random_def next_raw_zero)

lemma random_random_one: "random_random one_rng = (1 / 2 ^ 53, one_rng)"
  by (simp add: random_random_def next_raw_one)

lemma randint_zero: "a \<le> b \<Longrightarrow> randint a b zero_rng = Some (a, zero_rng)"
  by (simp add: randint_def next_raw_zero)

lemma randint_one: "a < b \<Longrightarrow> randint a b one_rng = Some (a + 1, one_rng)"
  by (simp add: randint_def next_raw_one)

lemma glitch_chance_zero: "(0::rat) < GLITCH_CHANCE"
  by (simp add: GLITCH_CHANCE_def)

lemma glitch_chance_one: "(1::rat) / 2 ^ 53 < GLITCH_CHANCE"
  by (simp add: GLITCH_CHANCE_def)

lemmas rng_evals =
  get_random_char_zero get_random_char_one random_random_zero random_random_one
  randint_zero randint_one glitch_chance_zero glitch_chance_one

lemma upt_2_3: "[2..<3] = [2]"
  by (simp add: upt_rec)

lemma upt_2_6: "[2..<6] = [2, 3, 4, 5]"
  by (simp add: upt_rec)

lemma upt_0_8: "[0..<8] = [0, 1, 2, 3, 4, 5, 6, 7]"
  by (simp add: upt_rec)

lemma random_chars_one_2: "random_chars 2 one_rng = ([65378, 65378], one_rng)"
  by (simp add: numeral_2_eq_2 rng_evals)

section \<open>The glitch pass and the branches of \<open>update\<close>\<close>

lemma glitch_loop_length: "length (fst (glitch_loop is cs g)) = length cs"
proof (induction "is" arbitrary: cs g)
  case Nil
  show ?case by simp
next
  case (Cons i "is")
  obtain u g1 where u: "random_random g = (u, g1)" by (cases "random_random g")
  obtain c g2 where c: "get_random_char g1 = (c, g2)" by (cases "get_random_char g1")
  show ?case
    using Cons [of "cs[i := c]" g2] Cons [of cs g1] u c by simp
qed

lemma glitch_loop_nth:
  assumes "j < length cs"
  shows "fst (glitch_loop is cs g) ! j = cs ! j
         \<or> (j \<in> set is \<and> fst (glitch_loop is cs g) ! j \<in> set CHAR_SET)"
  using assms
proof (induction "is" arbitrary: cs g)
  case Nil
  show ?case by simp
next
  case (Cons i "is")
  obtain u g1 where u: "random_random g = (u, g1)" by (cases "random_random g")
  obtain c g2 where c: "get_random_char g1 = (c, g2)" by (cases "get_random_char g1")
  have pal: "c \<in> set CHAR_SET" using get_random_char_palette [of g1] c by simp
  show ?case
  proof (cases "u < GLITCH_CHANCE")
    case True
    then have eq: "glitch_loop (i # is) cs g = glitch_loop is (cs[i := c]) g2"
      using u c by simp
    have "j < length (cs[i := c])" using Cons.prems by simp
    from Cons.IH [OF this, of g2]
    show ?thesis
      unfolding eq using pal Cons.prems by (cases "j = i") auto
  next
    case False
    then have eq: "glitch_loop (i # is) cs g = glitch_loop is cs g1"
      using u by simp
    from Cons.IH [OF Cons.prems, of g1]
    show ?thesis unfolding eq by auto
  qed
qed

text \<open>The glitch pass assigns \<open>chars\<close> only, keeps its length and its first two glyphs.\<close>

lemma glitch_frame:
  "\<exists>cs. fst (glitch s g) = s\<lparr>chars := cs\<rparr> \<and> length cs = length (chars s)
        \<and> (\<forall>j<length cs. cs ! j = chars s ! j \<or> (2 \<le> j \<and> cs ! j \<in> set CHAR_SET))"
proof (cases "2 < length (chars s)")
  case False
  then have "fst (glitch s g) = s\<lparr>chars := chars s\<rparr>" by (simp add: glitch_def)
  then show ?thesis by (intro exI [of _ "chars s"]) simp
next
  case True
  let ?cs = "fst (glitch_loop [2..<length (chars s)] (chars s) g)"
  have "fst (glitch s g) = s\<lparr>chars := ?cs\<rparr>"
    using True by (simp add: glitch_def case_prod_beta)
  moreover have "length ?cs = length (chars s)" by (rule glitch_loop_length)
  moreover have "\<forall>j<length ?cs. ?cs ! j = chars s ! j \<or> (2 \<le> j \<and> ?cs ! j \<in> set CHAR_SET)"
  proof (intro allI impI)
    fix j assume "j < length ?cs"
    then have "j < length (chars s)" by (simp add: glitch_loop_length)
    from glitch_loop_nth [OF this, of "[2..<length (chars s)]" g]
    show "?cs ! j = chars s ! j \<or> (2 \<le> j \<and> ?cs ! j \<in> set CHAR_SET)" by auto
  qed
  ultimately show ?thesis by blast
qed

text \<open>The three branches of \<open>update\<close>.\<close>

lemma update_waiting:
  assumes "update_counter s + 1 < speed s"
  shows "update s h g =
    Some (glitch (s\<lparr>height := h, max_len := min MAX_STREAM_LENGTH (h - 1),
                    update_counter := update_counter s + 1\<rparr>) g)"
  using assms by (simp add: update_def Let_def)

lemma update_recycling:
  assumes "speed s \<le> update_counter s + 1" and "h + length_s s \<le> y s + 1"
  shows "update s h g =
    reset (s\<lparr>height := h, max_len := min MAX_STREAM_LENGTH (h - 1),
             y := y s + 1, update_counter := 0\<rparr>) g"
  using assms by (simp add: update_def Let_def)

lemma update_moving:
  assumes "speed s \<le> update_counter s + 1" and "y s + 1 < h + length_s s"
  shows "update s h g =
    Some (glitch (s\<lparr>height := h, max_len := min MAX_STREAM_LENGTH (h - 1),
                    y := y s + 1, update_counter := 0,
                    chars := (if int (length (chars s)) + 1 > length_s s
                              then butlast (fst (get_random_char g) # chars s)
                              else fst (get_random_char g) # chars s)\<rparr>)
            (snd (get_random_char g)))"
  using assms by (simp add: update_def Let_def case_prod_beta)

text \<open>
  The draws in the order the source makes them: what \<open>randint\<close>, \<open>get_random_char\<close>,
  the list comprehension and \<open>reset\<close> return, as functions of the sequence of raw draws.
\<close>

lemma randint_draw:
  "a \<le> b \<Longrightarrow> randint a b g = Some (a + int (g 0) mod (b - a + 1), \<lambda>i. g (Suc i))"
  by (simp add: randint_def next_raw_def)

lemma get_random_char_draw:
  "get_random_char g = (CHAR_SET ! (g 0 mod length CHAR_SET), \<lambda>i. g (Suc i))"
  by (simp add: get_random_char_def next_raw_def)

lemma random_chars_draws:
  "random_chars n g =
     (map (\<lambda>i. CHAR_SET ! (g i mod length CHAR_SET)) [0..<n], \<lambda>i. g (n + i))"
proof (induction n arbitrary: g)
  case 0
  show ?case by simp
next
  case (Suc n)
  show ?case
    using Suc [of "\<lambda>i. g (Suc i)"]
    by (simp add: get_random_char_draw map_upt_Suc del: upt_Suc)
qed

lemma reset_draws:
  assumes "1 \<le> min_len s"
  shows "\<exists>d len n. d = (if max_len s \<le> min_len s then 0 else 1)
     \<and> len = (if max_len s \<le> min_len s then min_len s
                else min_len s + int (g 0) mod (max_len s - min_len s + 1))
     \<and> n = nat (1 + int (g (d + 2)) mod len)
     \<and> 1 \<le> len
     \<and> reset s g =
         Some (s\<lparr>length_s := len, y := - len + int (g d) mod len,
                 speed := STREAM_SPEED_MIN
                   + int (g (d + 1)) mod (STREAM_SPEED_MAX - STREAM_SPEED_MIN + 1),
                 chars := map (\<lambda>i. CHAR_SET ! (g (d + 3 + i) mod length CHAR_SET)) [0..<n],
                 update_counter := 0\<rparr>,
               \<lambda>i. g (d + 3 + n + i))"
proof (cases "max_len s \<le> min_len s")
  case True
  have sp: "STREAM_SPEED_MIN \<le> STREAM_SPEED_MAX" by (simp add: config_defs)
  have l: "- min_len s \<le> - 1" "1 \<le> min_len s" using assms by simp_all
  show ?thesis
    using True assms
    by (simp add: reset_def randint_draw [OF sp] randint_draw [OF l(1)] randint_draw [OF l(2)]
        random_chars_draws numeral_2_eq_2 numeral_3_eq_3)
next
  case False
  define len where "len = min_len s + int (g 0) mod (max_len s - min_len s + 1)"
  have lt: "min_len s \<le> max_len s" using False by simp
  have "0 \<le> int (g 0) mod (max_len s - min_len s + 1)"
    using lt by (intro pos_mod_sign) simp
  then have len1: "1 \<le> len" using assms by (simp add: len_def)
  have sp: "STREAM_SPEED_MIN \<le> STREAM_SPEED_MAX" by (simp add: config_defs)
  have l: "- len \<le> - 1" using len1 by simp
  show ?thesis
    using False len1
    by (simp add: reset_def randint_draw [OF lt] randint_draw [OF sp] randint_draw [OF l]
        randint_draw [OF len1] random_chars_draws len_def [symmetric]
        numeral_2_eq_2 numeral_3_eq_3)
qed

section \<open>The length bound of the buffer\<close>

text \<open>
  Claim C1. A call of \<open>update\<close>, with any \<open>current_height\<close> and any random source,
  that starts with \<open>len(chars) \<le> length\<close> and returns, returns a stream with
  \<open>len(chars) \<le> length\<close>. The constructor establishes the bound, so it holds after any
  number of calls of \<open>update\<close> on a constructed stream. (The call returns for every stream
  with \<open>1 \<le> min_len\<close>, see \<open>update_succeeds\<close> below.)
\<close>

theorem update_keeps_length_bound:
  "(int (length (chars s)) \<le> length_s s \<and> update s current_height g = Some (s', g')
      \<longrightarrow> int (length (chars s')) \<le> length_s s')
   \<and> (RainStream_init c h w g0 = Some (s0, g1)
        \<and> run_updates n current_height s0 g1 = Some (s1, g2)
      \<longrightarrow> int (length (chars s1)) \<le> length_s s1)"
proof -
  have step: "int (length (chars t')) \<le> length_s t'"
    if bound: "int (length (chars t)) \<le> length_s t" and upd: "update t k r = Some (t', r')"
    for t t' :: RainStream and k r r'
  proof -
    consider (waiting) "update_counter t + 1 < speed t"
      | (recycling) "speed t \<le> update_counter t + 1" "k + length_s t \<le> y t + 1"
      | (moving) "speed t \<le> update_counter t + 1" "y t + 1 < k + length_s t"
      by linarith
    then show ?thesis
    proof cases
      case waiting
      let ?t = "t\<lparr>height := k, max_len := min MAX_STREAM_LENGTH (k - 1),
                   update_counter := update_counter t + 1\<rparr>"
      from glitch_frame [of ?t r] obtain cs where
        "fst (glitch ?t r) = ?t\<lparr>chars := cs\<rparr>" "length cs = length (chars ?t)" by blast
      moreover have "glitch ?t r = (t', r')"
        using update_waiting [OF waiting, of k r] upd by simp
      ultimately show ?thesis using bound by simp
    next
      case recycling
      from update_recycling [OF recycling, of r] upd
      have "reset (t\<lparr>height := k, max_len := min MAX_STREAM_LENGTH (k - 1),
               y := y t + 1, update_counter := 0\<rparr>) r = Some (t', r')" by simp
      then show ?thesis by (rule reset_Some(8))
    next
      case moving
      let ?t = "t\<lparr>height := k, max_len := min MAX_STREAM_LENGTH (k - 1),
                      y := y t + 1, update_counter := 0,
                      chars := (if int (length (chars t)) + 1 > length_s t
                                then butlast (fst (get_random_char r) # chars t)
                                else fst (get_random_char r) # chars t)\<rparr>"
      let ?r = "snd (get_random_char r)"
      from glitch_frame [of ?t ?r] obtain cs where
        "fst (glitch ?t ?r) = ?t\<lparr>chars := cs\<rparr>" "length cs = length (chars ?t)" by blast
      moreover have "glitch ?t ?r = (t', r')"
        using update_moving [OF moving, of r] upd by simp
      moreover have "int (length (chars ?t)) \<le> length_s t"
        using bound by simp
      ultimately show ?thesis by simp
    qed
  qed
  have run: "int (length (chars t')) \<le> length_s t'"
    if "int (length (chars t)) \<le> length_s t" and "run_updates m k t r = Some (t', r')"
    for m k r r' and t t' :: RainStream
    using that
  proof (induction m arbitrary: t r)
    case 0
    then show ?case by simp
  next
    case (Suc m)
    from Suc.prems(2) obtain t1 r1 where
      u: "update t k r = Some (t1, r1)" and rest: "run_updates m k t1 r1 = Some (t', r')"
      by (auto simp: bind_eq_Some_conv)
    from Suc.IH [OF step [OF Suc.prems(1) u] rest] show ?case .
  qed
  have init: "int (length (chars t)) \<le> length_s t"
    if "RainStream_init c h w r = Some (t, r')" for t r r'
    using that unfolding RainStream_init_def Let_def by (rule reset_Some(8))
  from step run init show ?thesis by blast
qed

text \<open>
  Claim C1, witness: a stream that moves one row, grows by one glyph and glitches; and
  the stream constructed for three rows, after two frames.
\<close>

theorem update_keeps_length_bound_witness:
  "int (length (chars falling_stream)) \<le> length_s falling_stream
   \<and> update falling_stream 24 zero_rng =
       Some (falling_stream\<lparr>y := 4,
               chars := [65377, 65377, 65377, 65377, 65377, 65377]\<rparr>, zero_rng)
   \<and> int (length [65377, 65377, 65377, 65377, 65377, 65377 :: glyph])
       \<le> length_s (falling_stream\<lparr>y := 4,
               chars := [65377, 65377, 65377, 65377, 65377, 65377]\<rparr>)
   \<and> RainStream_init 0 3 1 zero_rng = Some (three_row_stream, zero_rng)
   \<and> run_updates 2 3 three_row_stream zero_rng =
       Some (three_row_stream\<lparr>max_len := 2, y := - 1,
               chars := [65377, 65377, 65377]\<rparr>, zero_rng)
   \<and> int (length [65377, 65377, 65377 :: glyph])
       \<le> length_s (three_row_stream\<lparr>max_len := 2, y := - 1,
               chars := [65377, 65377, 65377]\<rparr>)"
proof -
  have h: "int (length (chars falling_stream)) \<le> length_s falling_stream"
    by (simp add: falling_stream_def)
  have u: "update falling_stream 24 zero_rng =
       Some (falling_stream\<lparr>y := 4,
               chars := [65377, 65377, 65377, 65377, 65377, 65377]\<rparr>, zero_rng)"
    by (simp add: update_def glitch_def Let_def config_defs falling_stream_def rng_evals
        upt_2_6)
  have i: "RainStream_init 0 3 1 zero_rng = Some (three_row_stream, zero_rng)"
    by (simp add: RainStream_init_def reset_def Let_def three_row_stream_def
        config_defs rng_evals)
  have r: "run_updates 2 3 three_row_stream zero_rng =
       Some (three_row_stream\<lparr>max_len := 2, y := - 1,
               chars := [65377, 65377, 65377]\<rparr>, zero_rng)"
    by (simp add: numeral_2_eq_2 update_def glitch_def Let_def config_defs
        three_row_stream_def rng_evals upt_2_3)
  have "int (length (chars (falling_stream\<lparr>y := 4,
               chars := [65377, 65377, 65377, 65377, 65377, 65377]\<rparr>)))
       \<le> length_s (falling_stream\<lparr>y := 4,
               chars := [65377, 65377, 65377, 65377, 65377, 65377]\<rparr>)"
    using update_keeps_length_bound [where s = falling_stream and current_height = 24
        and g = zero_rng and g' = zero_rng] h u
    by blast
  moreover have "int (length (chars (three_row_stream\<lparr>max_len := 2, y := - 1,
               chars := [65377, 65377, 65377]\<rparr>)))
       \<le> length_s (three_row_stream\<lparr>max_len := 2, y := - 1,
               chars := [65377, 65377, 65377]\<rparr>)"
    using update_keeps_length_bound [where c = 0 and h = 3 and w = 1 and ?g0.0 = zero_rng
        and ?s0.0 = three_row_stream and ?g1.0 = zero_rng and n = 2 and current_height = 3
        and ?g2.0 = zero_rng] i r
    by blast
  ultimately show ?thesis using h u i r by simp
qed

section \<open>Recycling\<close>

text \<open>
  Claim C2, as amended. \<open>update\<close> moves the stream, and so tests whether it has left the
  screen, only on a call where the speed counter fires
  (\<open>speed \<le> update_counter + 1\<close>). On such a call a stream with
  \<open>current_height + length \<le> y\<close> (and \<open>1 \<le> min_len\<close>, as every constructed stream
  has) is reset: the call returns; the new length is \<open>min_len\<close>, or drawn in
  \<open>[min_len, max_len]\<close>; the new position is drawn in \<open>[- new length, - 1]\<close>; and the
  buffer is drawn anew from the random source: \<open>n\<close> glyphs with \<open>1 \<le> n \<le> new length\<close>,
  where \<open>n\<close> is the draw after those for length, position and speed, and the glyph at
  index \<open>i\<close> is the palette glyph that the \<open>i\<close>-th draw after that selects. Nothing of
  the old buffer remains. \<open>d\<close> is the number of draws made for the length.
\<close>

theorem update_recycles_when_counter_fires:
  assumes "current_height + length_s s \<le> y s"
    and "speed s \<le> update_counter s + 1"
    and "1 \<le> min_len s"
  shows "\<exists>s' g' d n. update s current_height g = Some (s', g')
     \<and> d = (if min MAX_STREAM_LENGTH (current_height - 1) \<le> min_len s then 0 else 1)
     \<and> length_s s' =
         (if min MAX_STREAM_LENGTH (current_height - 1) \<le> min_len s then min_len s
          else min_len s
            + int (g 0) mod (min MAX_STREAM_LENGTH (current_height - 1) - min_len s + 1))
     \<and> y s' = - length_s s' + int (g d) mod length_s s'
     \<and> - length_s s' \<le> y s' \<and> y s' \<le> - 1
     \<and> speed s' = STREAM_SPEED_MIN
           + int (g (d + 1)) mod (STREAM_SPEED_MAX - STREAM_SPEED_MIN + 1)
     \<and> update_counter s' = 0
     \<and> n = nat (1 + int (g (d + 2)) mod length_s s')
     \<and> 1 \<le> n \<and> int n \<le> length_s s'
     \<and> chars s' = map (\<lambda>i. CHAR_SET ! (g (d + 3 + i) mod length CHAR_SET)) [0..<n]
     \<and> set (chars s') \<subseteq> set CHAR_SET
     \<and> g' = (\<lambda>i. g (d + 3 + n + i))"
proof -
  let ?t = "s\<lparr>height := current_height,
               max_len := min MAX_STREAM_LENGTH (current_height - 1),
               y := y s + 1, update_counter := 0\<rparr>"
  have u: "update s current_height g = reset ?t g"
    using assms(1,2) by (intro update_recycling) simp_all
  have m: "1 \<le> min_len ?t" using assms(3) by simp
  from reset_draws [OF m, of g] obtain d len n where
    d: "d = (if max_len ?t \<le> min_len ?t then 0 else 1)"
    and len: "len = (if max_len ?t \<le> min_len ?t then min_len ?t
                else min_len ?t + int (g 0) mod (max_len ?t - min_len ?t + 1))"
    and n: "n = nat (1 + int (g (d + 2)) mod len)"
    and r: "reset ?t g =
         Some (?t\<lparr>length_s := len, y := - len + int (g d) mod len,
                 speed := STREAM_SPEED_MIN
                   + int (g (d + 1)) mod (STREAM_SPEED_MAX - STREAM_SPEED_MIN + 1),
                 chars := map (\<lambda>i. CHAR_SET ! (g (d + 3 + i) mod length CHAR_SET)) [0..<n],
                 update_counter := 0\<rparr>,
               \<lambda>i. g (d + 3 + n + i))"
    by blast
  let ?s' = "?t\<lparr>length_s := len, y := - len + int (g d) mod len,
                 speed := STREAM_SPEED_MIN
                   + int (g (d + 1)) mod (STREAM_SPEED_MAX - STREAM_SPEED_MIN + 1),
                 chars := map (\<lambda>i. CHAR_SET ! (g (d + 3 + i) mod length CHAR_SET)) [0..<n],
                 update_counter := 0\<rparr>"
  let ?g' = "\<lambda>i. g (d + 3 + n + i)"
  have c1: "update s current_height g = Some (?s', ?g')"
    using u r by simp
  have c2: "d = (if min MAX_STREAM_LENGTH (current_height - 1) \<le> min_len s then 0 else 1)"
    using d by simp
  have l: "length_s ?s' = len" by simp
  have c3: "length_s ?s' =
         (if min MAX_STREAM_LENGTH (current_height - 1) \<le> min_len s then min_len s
          else min_len s
            + int (g 0) mod (min MAX_STREAM_LENGTH (current_height - 1) - min_len s + 1))"
    unfolding l using len by simp
  have c4: "y ?s' = - length_s ?s' + int (g d) mod length_s ?s'" by simp
  have c5: "- length_s ?s' \<le> y ?s'" and c6: "y ?s' \<le> - 1"
    and b3: "1 \<le> length (chars ?s')" and b4: "int (length (chars ?s')) \<le> length_s ?s'"
    and c12: "set (chars ?s') \<subseteq> set CHAR_SET"
    using reset_Some(2,3,7,8,9) [OF r] by blast+
  have c7: "speed ?s' = STREAM_SPEED_MIN
           + int (g (d + 1)) mod (STREAM_SPEED_MAX - STREAM_SPEED_MIN + 1)" by simp
  have c8: "update_counter ?s' = 0" by simp
  have c9: "n = nat (1 + int (g (d + 2)) mod length_s ?s')"
    unfolding l by (rule n)
  have c10: "1 \<le> n" and c10': "int n \<le> length_s ?s'"
    using b3 b4 by simp_all
  have c11: "chars ?s' = map (\<lambda>i. CHAR_SET ! (g (d + 3 + i) mod length CHAR_SET)) [0..<n]"
    by simp
  show ?thesis
    apply (rule exI [of _ ?s'])
    apply (rule exI [of _ ?g'])
    apply (rule exI [of _ d])
    apply (rule exI [of _ n])
    apply (intro conjI)
                 apply (fact c1)
                apply (fact c2)
               apply (fact c3)
              apply (fact c4)
             apply (fact c5)
            apply (fact c6)
           apply (fact c7)
          apply (fact c8)
         apply (fact c9)
        apply (fact c10)
       apply (fact c10')
      apply (fact c11)
     apply (fact c12)
    apply (rule refl)
    done
qed

text \<open>
  Claim C2, witness of the amended statement: the counter of \<open>leaving_stream\<close> fires,
  and its buffer of three glyphs is replaced by two glyphs drawn from the source.
\<close>

theorem update_recycles_when_counter_fires_witness:
  "3 + length_s leaving_stream \<le> y leaving_stream
   \<and> speed leaving_stream \<le> update_counter leaving_stream + 1
   \<and> 1 \<le> min_len leaving_stream
   \<and> (\<exists>s' g'. update leaving_stream 3 one_rng = Some (s', g')
        \<and> length_s s' = 3 \<and> y s' = - 2 \<and> speed s' = 2 \<and> update_counter s' = 0
        \<and> chars s' = [65378, 65378] \<and> g' = one_rng)"
proof -
  have h1: "3 + length_s leaving_stream \<le> y leaving_stream"
    and h2: "speed leaving_stream \<le> update_counter leaving_stream + 1"
    and h3: "1 \<le> min_len leaving_stream"
    by (simp_all add: leaving_stream_def)
  have m: "min_len leaving_stream = 3" by (simp add: leaving_stream_def)
  from update_recycles_when_counter_fires [OF h1 h2 h3, of one_rng] obtain s' g' d n where
    u: "update leaving_stream 3 one_rng = Some (s', g')"
    and d: "d = 0" and len: "length_s s' = 3"
    and y': "y s' = - length_s s' + int (one_rng d) mod length_s s'"
    and sp: "speed s' = STREAM_SPEED_MIN
           + int (one_rng (d + 1)) mod (STREAM_SPEED_MAX - STREAM_SPEED_MIN + 1)"
    and c: "update_counter s' = 0"
    and n: "n = nat (1 + int (one_rng (d + 2)) mod length_s s')"
    and cs: "chars s' = map (\<lambda>i. CHAR_SET ! (one_rng (d + 3 + i) mod length CHAR_SET)) [0..<n]"
    and g': "g' = (\<lambda>i. one_rng (d + 3 + n + i))"
    by (auto simp: m config_defs)
  have n2: "n = Suc (Suc 0)" using n len by (simp add: one_rng_def)
  have "chars s' = [65378, 65378]"
    using cs by (simp add: n2 one_rng_def length_CHAR_SET CHAR_SET_nth)
  moreover have "y s' = - 2" "speed s' = 2"
    using y' sp len by (simp_all add: one_rng_def config_defs)
  moreover have "g' = one_rng" using g' by (simp add: one_rng_def)
  ultimately show ?thesis using h1 h2 h3 u len c by simp
qed

text \<open>
  Claim C2, counterexample to the claim as stated: \<open>waiting_stream\<close> is below a screen of
  3 rows (\<open>3 + 3 \<le> 6\<close>), its counter does not fire (\<open>0 + 1 < 2\<close>), and after \<open>update\<close>
  its position is still 6.
\<close>

theorem update_recycle_counterexample:
  "3 + length_s waiting_stream \<le> y waiting_stream
   \<and> update waiting_stream 3 one_rng = Some (leaving_stream, one_rng)
   \<and> \<not> y leaving_stream \<le> - 1"
  by (simp add: update_def glitch_def Let_def config_defs waiting_stream_def
      leaving_stream_def rng_evals upt_2_3)

text \<open>
  \<open>waiting_stream\<close> is a state of a stream that the constructor built: the terminal
  had 4 rows for 16 frames.
\<close>

lemma run_updates_numeral:
  "run_updates (numeral k) h s g =
     Option.bind (update s h g) (\<lambda>(s', g'). run_updates (pred_numeral k) h s' g')"
  by (simp add: numeral_eq_Suc)

lemma waiting_stream_reached:
  "Option.bind (RainStream_init 0 4 1 one_rng) (\<lambda>(s, g). run_updates 16 4 s g)
   = Some (waiting_stream, one_rng)"
  by (simp add: run_updates_numeral RainStream_init_def reset_def update_def glitch_def
      Let_def waiting_stream_def config_defs rng_evals random_chars_one_2 upt_2_3)

section \<open>The state after a reset\<close>

text \<open>
  Claim C3, as amended. For a stream with \<open>1 \<le> min_len\<close> (every constructed stream
  has \<open>3 \<le> min_len\<close>) \<open>reset\<close> returns, and then: \<open>length\<close> is \<open>min_len\<close> when
  \<open>max_len \<le> min_len\<close> and is in \<open>[min_len, max_len]\<close> otherwise; the position is in
  \<open>[- length, - 1]\<close>; the speed is in \<open>[STREAM_SPEED_MIN, STREAM_SPEED_MAX]\<close>; the
  counter is 0; the buffer holds between 1 and \<open>length\<close> glyphs, all of the palette.
\<close>

theorem reset_postcondition:
  assumes "1 \<le> min_len s"
  shows "\<exists>s' g'. reset s g = Some (s', g')
     \<and> (if max_len s \<le> min_len s then length_s s' = min_len s
         else min_len s \<le> length_s s' \<and> length_s s' \<le> max_len s)
     \<and> - length_s s' \<le> y s' \<and> y s' \<le> - 1
     \<and> STREAM_SPEED_MIN \<le> speed s' \<and> speed s' \<le> STREAM_SPEED_MAX
     \<and> update_counter s' = 0
     \<and> 1 \<le> length (chars s') \<and> int (length (chars s')) \<le> length_s s'
     \<and> set (chars s') \<subseteq> set CHAR_SET
     \<and> min_len s' = min_len s \<and> max_len s' = max_len s"
proof -
  from reset_succeeds [OF assms, of g] obtain s' g' where r: "reset s g = Some (s', g')"
    by blast
  show ?thesis
    using r reset_Some [OF r] by simp
qed

text \<open>Claim C3, witness of the amended statement.\<close>

theorem reset_postcondition_witness:
  "1 \<le> min_len falling_stream
   \<and> (\<exists>s' g'. reset falling_stream zero_rng = Some (s', g')
        \<and> 7 \<le> length_s s' \<and> length_s s' \<le> 23
        \<and> - length_s s' \<le> y s' \<and> y s' \<le> - 1
        \<and> 1 \<le> speed s' \<and> speed s' \<le> 15
        \<and> update_counter s' = 0
        \<and> 1 \<le> length (chars s') \<and> int (length (chars s')) \<le> length_s s'
        \<and> set (chars s') \<subseteq> set CHAR_SET)"
proof -
  have h: "1 \<le> min_len falling_stream" by (simp add: falling_stream_def)
  from reset_postcondition [OF h, of zero_rng] show ?thesis
    by (auto simp: falling_stream_def config_defs)
qed

text \<open>
  Claim C3, counterexample to the claim as stated: \<open>short_stream\<close> has \<open>min_len = 3\<close> and
  \<open>max_len = 2\<close>, and after \<open>reset\<close> its length is 3, above \<open>max_len\<close>.
\<close>

theorem reset_length_counterexample:
  "map_option (length_s \<circ> fst) (reset short_stream one_rng) = Some 3
   \<and> map_option (max_len \<circ> fst) (reset short_stream one_rng) = Some 2"
  by (simp add: reset_def short_stream_def config_defs rng_evals random_chars_one_2)

text \<open>
  \<open>short_stream\<close> is a state of the program: the constructor for a terminal of 3 rows,
  then one call of \<open>update\<close> with that height, which recomputes \<open>max_len\<close> as
  \<open>min MAX_STREAM_LENGTH (3 - 1)\<close> and leaves \<open>min_len\<close> alone.
\<close>

lemma short_stream_reached:
  "Option.bind (RainStream_init 0 3 1 one_rng) (\<lambda>(s, g). update s 3 g)
   = Some (short_stream, one_rng)"
  by (simp add: RainStream_init_def reset_def update_def glitch_def Let_def short_stream_def
      config_defs rng_evals random_chars_one_2)

section \<open>The frame of a call that does not move the stream\<close>

text \<open>
  Claim C10, as amended. On a call of \<open>update\<close> where the counter does not fire
  (\<open>update_counter + 1 < speed\<close>) the call returns; \<open>y\<close>, \<open>length\<close>, \<open>speed\<close>,
  \<open>col\<close> and the length of the buffer are unchanged; the glyphs at indices 0 and 1 are
  unchanged; every other glyph is unchanged or replaced by a palette glyph. Apart from
  \<open>chars\<close>, the stream after the call is the stream before it with \<open>current_height\<close>
  assigned to \<open>height\<close>, \<open>max_len\<close> recomputed from it, and the counter incremented.
\<close>

theorem update_frame_when_counter_waits:
  assumes "update_counter s + 1 < speed s"
  shows "\<exists>s' g'. update s current_height g = Some (s', g')
     \<and> y s' = y s \<and> length_s s' = length_s s \<and> speed s' = speed s \<and> col s' = col s
     \<and> length (chars s') = length (chars s)
     \<and> take 2 (chars s') = take 2 (chars s)
     \<and> (\<forall>j<length (chars s').
           chars s' ! j = chars s ! j \<or> (2 \<le> j \<and> chars s' ! j \<in> set CHAR_SET))
     \<and> s'\<lparr>chars := chars s\<rparr> =
         s\<lparr>height := current_height,
           max_len := min MAX_STREAM_LENGTH (current_height - 1),
           update_counter := update_counter s + 1\<rparr>"
proof -
  let ?t = "s\<lparr>height := current_height,
               max_len := min MAX_STREAM_LENGTH (current_height - 1),
               update_counter := update_counter s + 1\<rparr>"
  obtain s' g' where gl: "glitch ?t g = (s', g')" by (cases "glitch ?t g")
  have u: "update s current_height g = Some (s', g')"
    using update_waiting [OF assms, of current_height g] gl by simp
  from glitch_frame [of ?t g] gl obtain cs where
    s': "s' = ?t\<lparr>chars := cs\<rparr>" and len: "length cs = length (chars s)"
    and nth: "\<forall>j<length cs. cs ! j = chars s ! j \<or> (2 \<le> j \<and> cs ! j \<in> set CHAR_SET)"
    by auto
  have "take 2 cs = take 2 (chars s)"
    using len nth by (auto simp: list_eq_iff_nth_eq)
  then show ?thesis
    using u s' len nth by simp
qed

text \<open>Claim C10, witness.\<close>

theorem update_frame_when_counter_waits_witness:
  "update_counter waiting_stream + 1 < speed waiting_stream
   \<and> (\<exists>s' g'. update waiting_stream 3 one_rng = Some (s', g')
     \<and> y s' = 6 \<and> length_s s' = 3 \<and> speed s' = 2 \<and> col s' = 0
     \<and> length (chars s') = 3
     \<and> take 2 (chars s') = [65378, 65378]
     \<and> height s' = 3 \<and> max_len s' = 2 \<and> update_counter s' = 1)"
proof -
  have h: "update_counter waiting_stream + 1 < speed waiting_stream"
    by (simp add: waiting_stream_def)
  from update_frame_when_counter_waits [OF h, of 3 one_rng] obtain s' g' where
    "update waiting_stream 3 one_rng = Some (s', g')"
    "y s' = y waiting_stream" "length_s s' = length_s waiting_stream"
    "speed s' = speed waiting_stream" "col s' = col waiting_stream"
    "length (chars s') = length (chars waiting_stream)"
    "take 2 (chars s') = take 2 (chars waiting_stream)"
    and eq: "s'\<lparr>chars := chars waiting_stream\<rparr> =
       waiting_stream\<lparr>height := 3, max_len := min MAX_STREAM_LENGTH (3 - 1),
               update_counter := update_counter waiting_stream + 1\<rparr>"
    by blast
  moreover have "height s' = 3" "max_len s' = 2" "update_counter s' = 1"
    using arg_cong [OF eq, of height] arg_cong [OF eq, of max_len]
      arg_cong [OF eq, of update_counter]
    by (simp_all add: waiting_stream_def config_defs)
  ultimately show ?thesis using h
    by (simp add: waiting_stream_def)
qed

text \<open>
  Claim C10, counterexample to the claim as stated: the counter of \<open>waiting_stream\<close> does
  not fire, and the call with a height of 3 rows changes its field \<open>height\<close> from 4 to 3,
  a mutation that the claim does not list.
\<close>

theorem update_frame_counterexample:
  "update_counter waiting_stream + 1 < speed waiting_stream
   \<and> height waiting_stream = 4
   \<and> map_option (height \<circ> fst) (update waiting_stream 3 one_rng) = Some 3"
  by (simp add: update_def glitch_def Let_def config_defs waiting_stream_def
      rng_evals upt_2_3)

section \<open>Drawing: the calls of \<open>draw\<close>\<close>

lemma half_less: "(of_int d :: rat) < of_int e / 2 \<longleftrightarrow> 2 * d < e"
proof -
  have "(of_int d :: rat) < of_int e / 2 \<longleftrightarrow> (of_int (2 * d) :: rat) < of_int e"
    by (simp add: field_simps)
  then show ?thesis by (simp only: of_int_less_iff)
qed

text \<open>The attributes of the five styles.\<close>

lemma style_attributes_values:
  "style_attributes Head_style = \<lparr>pair_number = 2, bold = True, dim = False\<rparr>"
  "style_attributes Second_style = \<lparr>pair_number = 1, bold = True, dim = False\<rparr>"
  "style_attributes Dim_style = \<lparr>pair_number = 1, bold = False, dim = True\<rparr>"
  "style_attributes Normal_fade_style = \<lparr>pair_number = 1, bold = False, dim = False\<rparr>"
  "style_attributes Body_style = \<lparr>pair_number = 1, bold = False, dim = False\<rparr>"
  by (simp_all add: style_attributes_def attr_defs)

text \<open>The attribute the source computes is the attribute of the specification's style.\<close>

lemma char_attributes_spec:
  assumes "i < n"
  shows "char_attributes i n = style_attributes (spec_style FADE_LENGTH n i)"
proof -
  consider "i = 0" | "i = 1" | "2 \<le> i" by linarith
  then show ?thesis
  proof cases
    case 1
    then show ?thesis by (simp add: char_attributes_def spec_style_def style_attributes_def)
  next
    case 2
    then show ?thesis using assms
      by (simp add: char_attributes_def spec_style_def style_attributes_def)
  next
    case 3
    then show ?thesis using assms
      by (auto simp: char_attributes_def spec_style_def style_attributes_def Let_def
          half_less FADE_LENGTH_def)
  qed
qed

lemma draw_chars_append: "draw_chars s n ps scr = scr @ draw_chars s n ps []"
proof (induction ps arbitrary: scr)
  case Nil
  show ?case by simp
next
  case (Cons p ps)
  obtain i c where p: "p = (i, c)" by (cases p)
  show ?case
    using Cons [of "scr @ [Addstr (y s - int i) (col s) c (Some (char_attributes i n))]"]
      Cons [of "[Addstr (y s - int i) (col s) c (Some (char_attributes i n))]"] Cons [of scr]
    by (simp add: p Let_def)
qed

lemma draw_chars_map:
  "draw_chars s n ps [] =
     map (\<lambda>(i, c). Addstr (y s - int i) (col s) c (Some (char_attributes i n)))
       (filter (\<lambda>(i, c). 0 \<le> y s - int i \<and> y s - int i < height s) ps)"
proof (induction ps)
  case Nil
  show ?case by simp
next
  case (Cons p ps)
  obtain i c where p: "p = (i, c)" by (cases p)
  show ?case
    using Cons draw_chars_append [of s n ps "[Addstr (y s - int i) (col s) c (Some (char_attributes i n))]"]
    by (simp add: p Let_def)
qed

lemma enumerate_nth: "enumerate 0 cs = map (\<lambda>i. (i, cs ! i)) [0..<length cs]"
  by (rule nth_equalityI) (simp_all add: nth_enumerate_eq)

lemma glyph_calls_indices:
  "draw_chars s (length (chars s)) (enumerate 0 (chars s)) [] =
     map (\<lambda>i. Addstr (y s - int i) (col s) (chars s ! i)
                 (Some (char_attributes i (length (chars s)))))
       (filter (\<lambda>i. 0 \<le> y s - int i \<and> y s - int i < height s) [0..<length (chars s)])"
  by (simp add: draw_chars_map enumerate_nth filter_map comp_def)

lemma draw_eq:
  "draw s scr =
     (s, scr @ draw_chars s (length (chars s)) (enumerate 0 (chars s)) []
         @ (if length_s s \<le> int (length (chars s)) \<and> 0 \<le> y s - length_s s
               \<and> y s - length_s s < height s \<and> y s - length_s s < y s
            then [Addstr (y s - length_s s) (col s) blank None] else []))"
  using draw_chars_append [of s "length (chars s)" "enumerate 0 (chars s)" scr]
  by (simp add: draw_def Let_def)

text \<open>
  Claim C4. For a stream whose buffer holds at least two glyphs, \<open>draw\<close> appends to the
  screen one call per buffer index \<open>i\<close> whose row \<open>y - i\<close> is on the screen, in the order
  of the indices, and the attribute of that call is the one of the style the
  specification's rule selects: head style at index 0, second-character style at index 1,
  and from index 2 on dim, normal-fade or body style by \<open>effective_fade\<close> and
  \<open>distance_from_tail\<close>. The erase call, if any, follows.
\<close>

theorem draw_styles:
  assumes "2 \<le> length (chars s)"
  shows "snd (draw s scr) =
     scr @ map (\<lambda>i. Addstr (y s - int i) (col s) (chars s ! i)
                 (Some (style_attributes (spec_style FADE_LENGTH (length (chars s)) i))))
            (filter (\<lambda>i. 0 \<le> y s - int i \<and> y s - int i < height s) [0..<length (chars s)])
         @ (if length_s s \<le> int (length (chars s)) \<and> 0 \<le> y s - length_s s
               \<and> y s - length_s s < height s \<and> y s - length_s s < y s
            then [Addstr (y s - length_s s) (col s) blank None] else [])"
proof -
  have "map (\<lambda>i. Addstr (y s - int i) (col s) (chars s ! i)
                 (Some (char_attributes i (length (chars s)))))
       (filter (\<lambda>i. 0 \<le> y s - int i \<and> y s - int i < height s) [0..<length (chars s)])
     = map (\<lambda>i. Addstr (y s - int i) (col s) (chars s ! i)
                 (Some (style_attributes (spec_style FADE_LENGTH (length (chars s)) i))))
       (filter (\<lambda>i. 0 \<le> y s - int i \<and> y s - int i < height s) [0..<length (chars s)])"
    by (rule map_cong) (simp_all add: char_attributes_spec)
  then show ?thesis
    by (simp only: draw_eq glyph_calls_indices snd_conv)
qed

text \<open>Claim C4, witness: a buffer of four glyphs shows four of the five styles.\<close>

theorem draw_styles_witness:
  "2 \<le> length (chars full_stream)
   \<and> snd (draw full_stream []) =
     [Addstr 9 4 65377 (Some (style_attributes Head_style)),
      Addstr 8 4 65378 (Some (style_attributes Second_style)),
      Addstr 7 4 65379 (Some (style_attributes Body_style)),
      Addstr 6 4 65380 (Some (style_attributes Normal_fade_style)),
      Addstr 5 4 65381 (Some (style_attributes Normal_fade_style)),
      Addstr 4 4 65382 (Some (style_attributes Dim_style)),
      Addstr 3 4 65383 (Some (style_attributes Dim_style)),
      Addstr 2 4 65384 (Some (style_attributes Dim_style)),
      Addstr 1 4 blank None]"
proof -
  have h: "2 \<le> length (chars full_stream)" by (simp add: full_stream_def)
  from draw_styles [OF h, of "[]"] h show ?thesis
    by (simp add: full_stream_def spec_style_def half_less FADE_LENGTH_def upt_0_8)
qed

text \<open>
  Claim C7. After the calls for the glyphs, \<open>draw\<close> makes one more call, writing a blank
  at row \<open>y - length\<close> of the stream's column, exactly when \<open>length \<le> len(chars)\<close> and
  that row is in \<open>[0, height)\<close> and above \<open>y\<close>; otherwise it makes no further call. The
  calls for the glyphs all pass an attribute, the erase call passes none, so a call
  without attribute occurs if and only if the condition holds.
\<close>

theorem draw_erases_tail:
  "snd (draw s scr) =
     scr @ draw_chars s (length (chars s)) (enumerate 0 (chars s)) []
         @ (if length_s s \<le> int (length (chars s)) \<and> 0 \<le> y s - length_s s
               \<and> y s - length_s s < height s \<and> y s - length_s s < y s
            then [Addstr (y s - length_s s) (col s) blank None] else [])
   \<and> (\<forall>c \<in> set (draw_chars s (length (chars s)) (enumerate 0 (chars s)) []).
         \<exists>r k ch a. c = Addstr r k ch (Some a))
   \<and> ((\<exists>r k ch. Addstr r k ch None \<in> set (snd (draw s []))) \<longleftrightarrow>
        length_s s \<le> int (length (chars s)) \<and> 0 \<le> y s - length_s s
          \<and> y s - length_s s < height s \<and> y s - length_s s < y s)"
proof -
  have glyphs: "\<forall>c \<in> set (draw_chars s (length (chars s)) (enumerate 0 (chars s)) []).
         \<exists>r k ch a. c = Addstr r k ch (Some a)"
    by (auto simp: draw_chars_map)
  then have "\<And>r k ch. Addstr r k ch None
      \<notin> set (draw_chars s (length (chars s)) (enumerate 0 (chars s)) [])"
    by fastforce
  then have "(\<exists>r k ch. Addstr r k ch None \<in> set (snd (draw s []))) \<longleftrightarrow>
        length_s s \<le> int (length (chars s)) \<and> 0 \<le> y s - length_s s
          \<and> y s - length_s s < height s \<and> y s - length_s s < y s"
    by (simp add: draw_eq)
  with glyphs show ?thesis by (simp add: draw_eq)
qed

text \<open>Claim C7, witness: a stream at its full length erases, a growing one does not.\<close>

theorem draw_erases_tail_witness:
  "snd (draw full_stream []) =
     draw_chars full_stream (length (chars full_stream)) (enumerate 0 (chars full_stream)) []
     @ [Addstr 1 4 blank None]
   \<and> (\<exists>r k ch. Addstr r k ch None \<in> set (snd (draw full_stream [])))
   \<and> \<not> (\<exists>r k ch. Addstr r k ch None \<in> set (snd (draw falling_stream [])))"
proof -
  have full: "length_s full_stream \<le> int (length (chars full_stream))"
    "0 \<le> y full_stream - length_s full_stream"
    "y full_stream - length_s full_stream < height full_stream"
    "y full_stream - length_s full_stream < y full_stream"
    "y full_stream - length_s full_stream = 1" "col full_stream = 4"
    by (simp_all add: full_stream_def)
  have growing: "\<not> length_s falling_stream \<le> int (length (chars falling_stream))"
    by (simp add: falling_stream_def)
  from draw_erases_tail [of full_stream "[]"] draw_erases_tail [of falling_stream "[]"]
    full growing
  show ?thesis by auto
qed

text \<open>
  Claim C8. \<open>draw\<close> returns the stream it was given, and the calls it appends do not
  depend on the screen: drawing a second time, on the screen the first call left,
  appends the same calls again.
\<close>

theorem draw_twice:
  "fst (draw s scr) = s
   \<and> snd (draw s scr) = scr @ snd (draw s [])
   \<and> draw (fst (draw s scr)) (snd (draw s scr)) = (s, scr @ snd (draw s []) @ snd (draw s []))"
  by (simp add: draw_eq)

text \<open>Claim C8, witness.\<close>

theorem draw_twice_witness:
  "fst (draw full_stream []) = full_stream
   \<and> draw (fst (draw full_stream [])) (snd (draw full_stream [])) =
       (full_stream, snd (draw full_stream []) @ snd (draw full_stream []))"
  using draw_twice [of full_stream "[]"] by auto

section \<open>Construction\<close>

lemma random_random_range: "0 \<le> fst (random_random g) \<and> fst (random_random g) < 1"
proof -
  have "fst (next_raw g) mod 2 ^ 53 < 2 ^ 53" by simp
  then have "(of_nat (fst (next_raw g) mod 2 ^ 53) :: rat) < of_nat (2 ^ 53)"
    by (simp only: of_nat_less_iff)
  then show ?thesis
    by (simp add: random_random_def case_prod_beta)
qed

text \<open>The constructor returns, whatever the height, with the clamped bounds.\<close>

lemma init_Some:
  "\<exists>s g'. RainStream_init c h w g = Some (s, g') \<and> col s = c \<and> height s = h \<and> width s = w
     \<and> 3 \<le> min_len s \<and> min_len s \<le> max_len s \<and> max_len s \<le> max 3 (h - 1)
     \<and> min_len s \<le> MIN_STREAM_LENGTH \<and> max_len s \<le> MAX_STREAM_LENGTH
     \<and> min_len s \<le> length_s s \<and> length_s s \<le> max_len s"
proof -
  define max0 where "max0 = min MAX_STREAM_LENGTH (h - 1)"
  define min0 where "min0 = min MIN_STREAM_LENGTH max0"
  define min1 where "min1 = (if min0 \<le> 2 then 3 else min0)"
  define max1 where "max1 = (if max0 < min1 then min1 else max0)"
  define t where "t = \<lparr>col = c, height = h, width = w, max_len = max1, min_len = min1,
             length_s = 0, y = 0, speed = 0, chars = [], update_counter = 0\<rparr>"
  have i: "RainStream_init c h w g = reset t g"
    by (simp add: RainStream_init_def Let_def t_def max1_def min1_def min0_def max0_def)
  have a: "min0 \<le> max0" "max0 \<le> h - 1" "max0 \<le> MAX_STREAM_LENGTH"
    "min0 \<le> MIN_STREAM_LENGTH"
    unfolding min0_def max0_def config_defs by arith+
  have b: "3 \<le> min1" "min1 \<le> max1" "max1 \<le> max 3 (h - 1)"
    "min1 \<le> MIN_STREAM_LENGTH" "max1 \<le> MAX_STREAM_LENGTH"
    using a by (auto simp: max1_def min1_def config_defs)
  have "1 \<le> min_len t" using b(1) by (simp add: t_def)
  from reset_succeeds [OF this, of g] obtain s g' where r: "reset t g = Some (s, g')"
    by blast
  have f: "col s = c" "height s = h" "width s = w" "max_len s = max1" "min_len s = min1"
    using reset_Some(10-14) [OF r] by (simp_all add: t_def)
  have "if max_len s \<le> min_len s then length_s s = min_len s
        else min_len s \<le> length_s s \<and> length_s s \<le> max_len s"
    using reset_Some(1) [OF r] reset_Some(13,14) [OF r] by simp
  then have "min_len s \<le> length_s s \<and> length_s s \<le> max_len s"
    using b(2) f(4,5) by (cases "max_len s \<le> min_len s") simp_all
  then show ?thesis
    using i r f b by simp
qed

text \<open>
  Claim C5, as amended. The constructor returns for every height, and the bounds it sets
  satisfy \<open>1 \<le> min_len \<le> max_len \<le> max 3 (height - 1)\<close>, with \<open>3 \<le> min_len\<close>: the bound
  \<open>height - 1\<close> holds from a height of 4 on, and below that both bounds are 3.
\<close>

theorem init_length_bounds:
  "\<exists>s g'. RainStream_init c h w g = Some (s, g')
     \<and> 1 \<le> min_len s \<and> 3 \<le> min_len s \<and> min_len s \<le> max_len s
     \<and> max_len s \<le> max 3 (h - 1)"
  using init_Some [of c h w g] by auto

text \<open>Claim C5, witness of the amended statement: a terminal of 24 rows.\<close>

theorem init_length_bounds_witness:
  "\<exists>s g'. RainStream_init 0 24 80 zero_rng = Some (s, g')
     \<and> 1 \<le> min_len s \<and> 3 \<le> min_len s \<and> min_len s \<le> max_len s \<and> max_len s \<le> 23"
  using init_length_bounds [of 0 24 80 zero_rng] by simp

lemma random_chars_zero_1: "random_chars (Suc 0) zero_rng = ([65377], zero_rng)"
  by (simp add: rng_evals)

lemma init_three_rows: "RainStream_init c 3 w zero_rng =
   Some (three_row_stream\<lparr>col := c, width := w\<rparr>, zero_rng)"
  by (simp add: RainStream_init_def reset_def Let_def three_row_stream_def
      config_defs rng_evals random_chars_zero_1)

text \<open>
  Claim C5, counterexample to the claim as stated: for a terminal of 3 rows the
  constructor sets \<open>max_len = 3\<close>, above \<open>height - 1 = 2\<close>.
\<close>

theorem init_length_bounds_counterexample:
  "RainStream_init 0 3 1 zero_rng = Some (three_row_stream, zero_rng)
   \<and> \<not> max_len three_row_stream \<le> height three_row_stream - 1"
  by (simp add: init_three_rows) (simp add: three_row_stream_def)

section \<open>Building the streams of a terminal\<close>

text \<open>\<open>update\<close> returns for every constructed stream; the fields it keeps.\<close>

lemma update_succeeds:
  assumes "1 \<le> min_len s"
  shows "\<exists>s' g'. update s h g = Some (s', g')"
proof -
  consider (waiting) "update_counter s + 1 < speed s"
    | (recycling) "speed s \<le> update_counter s + 1" "h + length_s s \<le> y s + 1"
    | (moving) "speed s \<le> update_counter s + 1" "y s + 1 < h + length_s s"
    by linarith
  then show ?thesis
  proof cases
    case waiting
    from update_waiting [OF waiting, of h g] show ?thesis by (metis surj_pair)
  next
    case recycling
    have "1 \<le> min_len (s\<lparr>height := h, max_len := min MAX_STREAM_LENGTH (h - 1),
             y := y s + 1, update_counter := 0\<rparr>)"
      using assms by simp
    from reset_succeeds [OF this, of g] update_recycling [OF recycling, of g]
    show ?thesis by simp
  next
    case moving
    from update_moving [OF moving, of g] show ?thesis by (metis surj_pair)
  qed
qed

lemma update_Some:
  assumes "update s h g = Some (s', g')"
  shows "min_len s' = min_len s" and "col s' = col s" and "width s' = width s"
    and "height s' = h" and "max_len s' = min MAX_STREAM_LENGTH (h - 1)"
    and "length_s s' = length_s s
         \<or> (if min MAX_STREAM_LENGTH (h - 1) \<le> min_len s then length_s s' = min_len s
             else min_len s \<le> length_s s' \<and> length_s s' \<le> min MAX_STREAM_LENGTH (h - 1))"
proof -
  consider (waiting) "update_counter s + 1 < speed s"
    | (recycling) "speed s \<le> update_counter s + 1" "h + length_s s \<le> y s + 1"
    | (moving) "speed s \<le> update_counter s + 1" "y s + 1 < h + length_s s"
    by linarith
  then have "min_len s' = min_len s \<and> col s' = col s \<and> width s' = width s
    \<and> height s' = h \<and> max_len s' = min MAX_STREAM_LENGTH (h - 1)
    \<and> (length_s s' = length_s s
         \<or> (if min MAX_STREAM_LENGTH (h - 1) \<le> min_len s then length_s s' = min_len s
             else min_len s \<le> length_s s' \<and> length_s s' \<le> min MAX_STREAM_LENGTH (h - 1)))"
  proof cases
    case waiting
    let ?t = "s\<lparr>height := h, max_len := min MAX_STREAM_LENGTH (h - 1),
                 update_counter := update_counter s + 1\<rparr>"
    from glitch_frame [of ?t g] obtain cs where
      "fst (glitch ?t g) = ?t\<lparr>chars := cs\<rparr>" by blast
    moreover have "glitch ?t g = (s', g')"
      using update_waiting [OF waiting, of h g] assms by simp
    ultimately have "s' = ?t\<lparr>chars := cs\<rparr>" by simp
    then show ?thesis by simp
  next
    case recycling
    let ?t = "s\<lparr>height := h, max_len := min MAX_STREAM_LENGTH (h - 1),
             y := y s + 1, update_counter := 0\<rparr>"
    from update_recycling [OF recycling, of g] assms
    have r: "reset ?t g = Some (s', g')" by simp
    from reset_Some(1,10-14) [OF r] show ?thesis by (auto split: if_splits)
  next
    case moving
    let ?t = "s\<lparr>height := h, max_len := min MAX_STREAM_LENGTH (h - 1),
                    y := y s + 1, update_counter := 0,
                    chars := (if int (length (chars s)) + 1 > length_s s
                              then butlast (fst (get_random_char g) # chars s)
                              else fst (get_random_char g) # chars s)\<rparr>"
    let ?g = "snd (get_random_char g)"
    from glitch_frame [of ?t ?g] obtain cs where
      "fst (glitch ?t ?g) = ?t\<lparr>chars := cs\<rparr>" by blast
    moreover have "glitch ?t ?g = (s', g')"
      using update_moving [OF moving, of g] assms by simp
    ultimately have "s' = ?t\<lparr>chars := cs\<rparr>" by simp
    then show ?thesis by simp
  qed
  then show "min_len s' = min_len s" and "col s' = col s" and "width s' = width s"
    and "height s' = h" and "max_len s' = min MAX_STREAM_LENGTH (h - 1)"
    and "length_s s' = length_s s
         \<or> (if min MAX_STREAM_LENGTH (h - 1) \<le> min_len s then length_s s' = min_len s
             else min_len s \<le> length_s s' \<and> length_s s' \<le> min MAX_STREAM_LENGTH (h - 1))"
    by blast+
qed

text \<open>In a terminal of three rows the length of a stream of length 3 stays 3.\<close>

lemma run_updates_three_rows:
  assumes "min_len s = 3" and "length_s s = 3" and "max_len s \<le> 3"
  shows "\<exists>s' g'. run_updates n 3 s g = Some (s', g')
           \<and> min_len s' = 3 \<and> length_s s' = 3 \<and> max_len s' \<le> 3"
  using assms
proof (induction n arbitrary: s g)
  case 0
  then show ?case by simp
next
  case (Suc n)
  have "1 \<le> min_len s" using Suc.prems(1) by simp
  from update_succeeds [OF this, of 3 g] obtain s1 g1 where
    u: "update s 3 g = Some (s1, g1)" by blast
  have "min_len s1 = 3" "length_s s1 = 3" "max_len s1 \<le> 3"
    using update_Some(1,5,6) [OF u] Suc.prems by (simp_all add: config_defs)
  from Suc.IH [OF this, of g1] show ?case using u by simp
qed

lemma create_streams_loop_cols:
  "\<exists>ss g'. create_streams_loop density cols h w acc g = Some (ss, g')
      \<and> set (map col ss) \<subseteq> set (map col acc) \<union> set cols
      \<and> (density \<le> 0 \<longrightarrow> ss = acc)"
proof (induction cols arbitrary: acc g)
  case Nil
  show ?case by simp
next
  case (Cons c cols)
  obtain u g1 where u: "random_random g = (u, g1)" by (cases "random_random g")
  have u0: "0 \<le> u" using random_random_range [of g] u by simp
  show ?case
  proof (cases "u < density")
    case True
    from init_Some [of c h w g1] obtain s g2 where
      i: "RainStream_init c h w g1 = Some (s, g2)" and c: "col s = c" by blast
    have eq: "create_streams_loop density (c # cols) h w acc g
        = create_streams_loop density cols h w (acc @ [s]) g2"
      using u True i by simp
    from Cons [of "acc @ [s]" g2] obtain ss g' where
      "create_streams_loop density cols h w (acc @ [s]) g2 = Some (ss, g')"
      "set (map col ss) \<subseteq> set (map col (acc @ [s])) \<union> set cols" by blast
    then show ?thesis
      unfolding eq using c True u0 by auto
  next
    case False
    then have eq: "create_streams_loop density (c # cols) h w acc g
        = create_streams_loop density cols h w acc g1"
      using u by simp
    from Cons [of acc g1] show ?thesis
      unfolding eq by auto
  qed
qed

text \<open>
  Claim C6. With density 1, width 1 and height 3, \<open>create_streams\<close> returns exactly one
  stream, for every random source; its column is 0 and its \<open>min_len\<close> and length are 3.
  After any number of calls of \<open>update\<close> with the height of the terminal, with any random
  source, the length is 3, and a reset of the stream reached sets the length to 3.
\<close>

theorem build_one_column_three_rows:
  "\<exists>s g'. create_streams_with 1 1 3 g = Some ([s], g') \<and> col s = 0
     \<and> min_len s = 3 \<and> length_s s = 3
     \<and> (\<forall>n g1. \<exists>s1 g2. run_updates n 3 s g1 = Some (s1, g2) \<and> length_s s1 = 3
           \<and> (\<forall>g3. \<exists>s2 g4. reset s1 g3 = Some (s2, g4) \<and> length_s s2 = 3))"
proof -
  obtain u g1 where u: "random_random g = (u, g1)" by (cases "random_random g")
  have u1: "u < 1" using random_random_range [of g] u by simp
  from init_Some [of 0 3 1 g1] obtain s g2 where
    i: "RainStream_init 0 3 1 g1 = Some (s, g2)" and c: "col s = 0"
    and b: "3 \<le> min_len s" "min_len s \<le> max_len s" "max_len s \<le> max 3 (3 - 1)"
      "min_len s \<le> length_s s" "length_s s \<le> max_len s"
    by blast
  have inv: "min_len s = 3" "length_s s = 3" "max_len s \<le> 3"
    using b by simp_all
  have build: "create_streams_with 1 1 3 g = Some ([s], g2)"
    using u u1 i by (simp add: create_streams_with_def)
  have run: "\<exists>s1 g2. run_updates n 3 s ga = Some (s1, g2) \<and> length_s s1 = 3
           \<and> (\<forall>g3. \<exists>s2 g4. reset s1 g3 = Some (s2, g4) \<and> length_s s2 = 3)" for n ga
  proof -
    from run_updates_three_rows [OF inv, of n ga] obtain s1 gb where
      r: "run_updates n 3 s ga = Some (s1, gb)"
      and inv1: "min_len s1 = 3" "length_s s1 = 3" "max_len s1 \<le> 3" by blast
    have "\<exists>s2 g4. reset s1 g3 = Some (s2, g4) \<and> length_s s2 = 3" for g3
    proof -
      have "1 \<le> min_len s1" using inv1 by simp
      from reset_succeeds [OF this, of g3] obtain s2 g4 where
        rs: "reset s1 g3 = Some (s2, g4)" by blast
      from reset_Some(1) [OF rs] inv1 have "length_s s2 = 3" by simp
      with rs show ?thesis by blast
    qed
    with r inv1 show ?thesis by blast
  qed
  from build c inv run show ?thesis by blast
qed

text \<open>Claim C6, witness: the stream built from the source of zeros, after nine frames.\<close>

theorem build_one_column_three_rows_witness:
  "create_streams_with 1 1 3 zero_rng = Some ([three_row_stream], zero_rng)
   \<and> (\<exists>s1 g2. run_updates 9 3 three_row_stream zero_rng = Some (s1, g2) \<and> length_s s1 = 3
         \<and> (\<exists>s2 g4. reset s1 one_rng = Some (s2, g4) \<and> length_s s2 = 3))"
proof -
  have b: "create_streams_with 1 1 3 zero_rng = Some ([three_row_stream], zero_rng)"
    by (simp add: create_streams_with_def rng_evals init_three_rows)
       (simp add: three_row_stream_def)
  from build_one_column_three_rows [of zero_rng] obtain s g' where
    c: "create_streams_with 1 1 3 zero_rng = Some ([s], g')"
    and r: "\<forall>n g1. \<exists>s1 g2. run_updates n 3 s g1 = Some (s1, g2) \<and> length_s s1 = 3
           \<and> (\<forall>g3. \<exists>s2 g4. reset s1 g3 = Some (s2, g4) \<and> length_s s2 = 3)"
    by blast
  from b c have "s = three_row_stream" by simp
  with r obtain s1 g2 where
    "run_updates 9 3 three_row_stream zero_rng = Some (s1, g2)" "length_s s1 = 3"
    "\<forall>g3. \<exists>s2 g4. reset s1 g3 = Some (s2, g4) \<and> length_s s2 = 3"
    by blast
  with b show ?thesis by blast
qed

text \<open>
  Claim C9. For every width, height, density and random source: \<open>create_streams\<close>
  returns the empty list when \<open>height \<le> 2\<close>; it always returns, and every stream it
  returns has its column in \<open>[0, width)\<close>; with density 0 it returns the empty list.
\<close>

theorem create_streams_columns:
  "(h \<le> 2 \<longrightarrow> create_streams_with density w h g = Some ([], g))
   \<and> (\<exists>ss g'. create_streams_with density w h g = Some (ss, g')
         \<and> (\<forall>s \<in> set ss. 0 \<le> col s \<and> col s < w))
   \<and> (\<exists>g'. create_streams_with 0 w h g = Some ([], g'))"
proof -
  have 1: "h \<le> 2 \<longrightarrow> create_streams_with density w h g = Some ([], g)"
    by (simp add: create_streams_with_def)
  have 2: "\<exists>ss g'. create_streams_with density w h g = Some (ss, g')
         \<and> (\<forall>s \<in> set ss. 0 \<le> col s \<and> col s < w)"
  proof (cases "h \<le> 2")
    case True
    then show ?thesis by (simp add: create_streams_with_def)
  next
    case False
    from create_streams_loop_cols [of density "[0..w - 1]" h w "[]" g] obtain ss g' where
      "create_streams_loop density [0..w - 1] h w [] g = Some (ss, g')"
      "set (map col ss) \<subseteq> set [0..w - 1]" by auto
    then show ?thesis using False by (auto simp: create_streams_with_def)
  qed
  have 3: "\<exists>g'. create_streams_with 0 w h g = Some ([], g')"
  proof (cases "h \<le> 2")
    case True
    then show ?thesis by (simp add: create_streams_with_def)
  next
    case False
    from create_streams_loop_cols [of 0 "[0..w - 1]" h w "[]" g]
    show ?thesis using False by (auto simp: create_streams_with_def)
  qed
  from 1 2 3 show ?thesis by blast
qed

lemma upto_0_1: "[0..1::int] = [0, 1]"
  by (simp add: upto_rec1)

text \<open>
  Claim C9, witness: two rows give no stream; density 1 on two columns of three rows gives
  the streams of columns 0 and 1; density 0 gives none.
\<close>

theorem create_streams_columns_witness:
  "(2::int) \<le> 2
   \<and> create_streams_with STREAM_DENSITY 80 2 zero_rng = Some ([], zero_rng)
   \<and> create_streams_with 1 2 3 zero_rng =
       Some ([three_row_stream\<lparr>width := 2\<rparr>, three_row_stream\<lparr>col := 1, width := 2\<rparr>], zero_rng)
   \<and> (\<exists>ss g'. create_streams_with 1 2 3 zero_rng = Some (ss, g') \<and> ss \<noteq> []
         \<and> (\<forall>s \<in> set ss. 0 \<le> col s \<and> col s < 2))
   \<and> (\<exists>g'. create_streams_with 0 2 3 zero_rng = Some ([], g'))"
proof -
  have b: "create_streams_with 1 2 3 zero_rng =
       Some ([three_row_stream\<lparr>width := 2\<rparr>, three_row_stream\<lparr>col := 1, width := 2\<rparr>], zero_rng)"
    by (simp add: create_streams_with_def rng_evals init_three_rows upto_0_1)
       (simp add: three_row_stream_def)
  from create_streams_columns [of 2 STREAM_DENSITY 80 zero_rng]
    create_streams_columns [of 3 1 2 zero_rng] b
  show ?thesis by auto
qed

end
